theory Spec2Isabelle
  imports Main
begin

section \<open>The fallback transpiler of main.py\<close>

text \<open>
  \<^verbatim>\<open>main.py\<close> imports \<^verbatim>\<open>PythonToJavaScriptTranspiler\<close> from a package
  \<^verbatim>\<open>transpiler\<close>; when that import fails it defines the class itself, with one method
  \<^verbatim>\<open>transpile(self, code)\<close> that rewrites the source text line by line. That method is
  the program modelled here.

  A Python \<^verbatim>\<open>str\<close> is modelled as a \<^typ>\<open>string\<close>: one \<^typ>\<open>char\<close> per code
  point, so the model covers the code points 0 to 255.
\<close>

subsection \<open>Character classes\<close>

text \<open>
  \<^verbatim>\<open>str.strip()\<close> and the regular expression class \<^verbatim>\<open>\s\<close> both use
  Python's \<^verbatim>\<open>str.isspace\<close>; below 256 it holds of the code points
  9 to 13, 28 to 32, 133 and 160.
\<close>

definition isspace :: "char \<Rightarrow> bool" where
  "isspace c \<longleftrightarrow>
     (let n = (of_char c :: nat)
      in (9 \<le> n \<and> n \<le> 13) \<or> (28 \<le> n \<and> n \<le> 32) \<or> n = 133 \<or> n = 160)"

text \<open>
  The class \<^verbatim>\<open>\w\<close> of a \<^verbatim>\<open>str\<close> pattern is \<^verbatim>\<open>str.isalnum\<close> or an
  underscore; below 256 these are the digits, the ASCII letters, the underscore and the
  Latin-1 letters and numeric signs listed.
\<close>

definition isword :: "char \<Rightarrow> bool" where
  "isword c \<longleftrightarrow>
     (let n = (of_char c :: nat)
      in (48 \<le> n \<and> n \<le> 57) \<or> (65 \<le> n \<and> n \<le> 90) \<or> n = 95 \<or> (97 \<le> n \<and> n \<le> 122)
         \<or> n = 170 \<or> n = 178 \<or> n = 179 \<or> n = 181 \<or> n = 185 \<or> n = 186
         \<or> (188 \<le> n \<and> n \<le> 190) \<or> (192 \<le> n \<and> n \<le> 214) \<or> (216 \<le> n \<and> n \<le> 246)
         \<or> 248 \<le> n)"

subsection \<open>String operations of Python\<close>

text \<open>\<^verbatim>\<open>s.strip()\<close>: whitespace is removed at both ends.\<close>

definition lstrip :: "string \<Rightarrow> string" where
  "lstrip s = dropWhile isspace s"

definition rstrip :: "string \<Rightarrow> string" where
  "rstrip s = rev (dropWhile isspace (rev s))"

definition strip :: "string \<Rightarrow> string" where
  "strip s = rstrip (lstrip s)"

text \<open>
  \<^verbatim>\<open>s.split(sep)\<close> for a separator of one character: the pieces between the
  separators, in order; the result is never empty (\<^verbatim>\<open>''.split('\n') == ['']\<close>).
\<close>

fun split :: "char \<Rightarrow> string \<Rightarrow> string list" where
  "split sep [] = [[]]"
| "split sep (c # cs) =
     (if c = sep then [] # split sep cs
      else (case split sep cs of
              [] \<Rightarrow> [[c]]
            | p # ps \<Rightarrow> (c # p) # ps))"

text \<open>\<^verbatim>\<open>s.split(sep, 1)\<close>: at most one split, at the first separator.\<close>

definition split1 :: "char \<Rightarrow> string \<Rightarrow> string list" where
  "split1 sep s =
     (if sep \<in> set s
      then [takeWhile (\<lambda>c. c \<noteq> sep) s, tl (dropWhile (\<lambda>c. c \<noteq> sep) s)]
      else [s])"

text \<open>\<^verbatim>\<open>sep.join(xs)\<close>.\<close>

fun join :: "string \<Rightarrow> string list \<Rightarrow> string" where
  "join sep [] = []"
| "join sep [x] = x"
| "join sep (x # y # ys) = x @ sep @ join sep (y # ys)"

text \<open>\<^verbatim>\<open>s.startswith(p)\<close>.\<close>

definition startswith :: "string \<Rightarrow> string \<Rightarrow> bool" where
  "startswith s p \<longleftrightarrow> take (length p) s = p"

text \<open>\<^verbatim>\<open>sub in s\<close> for strings: \<open>sub\<close> occurs in \<open>s\<close> as a contiguous piece.\<close>

fun contains :: "string \<Rightarrow> string \<Rightarrow> bool" where
  "contains [] sub \<longleftrightarrow> sub = []"
| "contains (c # cs) sub \<longleftrightarrow> startswith (c # cs) sub \<or> contains cs sub"

text \<open>
  The slices \<^verbatim>\<open>s[i:]\<close> and \<^verbatim>\<open>s[i:-1]\<close> for a constant \<open>i \<ge> 0\<close>. A slice never
  raises: the bounds are clamped to the length, and an empty range gives the empty string.
\<close>

definition slice_from :: "nat \<Rightarrow> string \<Rightarrow> string" where
  "slice_from i s = drop i s"

definition slice_from_to_last :: "nat \<Rightarrow> string \<Rightarrow> string" where
  "slice_from_to_last i s = drop i (take (length s - 1) s)"

subsection \<open>Operations that can raise\<close>

datatype error = IndexError | AttributeError

text \<open>\<^verbatim>\<open>xs[i]\<close> for a constant \<open>i \<ge> 0\<close> raises IndexError out of range.\<close>

definition getitem :: "'a list \<Rightarrow> nat \<Rightarrow> error + 'a" where
  "getitem xs i = (if i < length xs then Inr (xs ! i) else Inl IndexError)"

text \<open>
  \<^verbatim>\<open>re.match\<close> returns a match object or \<^verbatim>\<open>None\<close>; \<^verbatim>\<open>m.groups()\<close> on
  \<^verbatim>\<open>None\<close> raises AttributeError.
\<close>

definition groups :: "'a option \<Rightarrow> error + 'a" where
  "groups m = (case m of None \<Rightarrow> Inl AttributeError | Some g \<Rightarrow> Inr g)"

subsection \<open>The regular expression of the function header\<close>

text \<open>
  \<^verbatim>\<open>re.match(r'def\s+(\w+)\s*\(([^)]*)\)\s*:', line)\<close> matches at the start of the
  line and may leave a rest. Each repetition is followed by an item that accepts no
  character of the repeated class, so the greedy repetition takes the whole run and
  backtracking never finds another match: the pattern is scanned from left to right.
  The result is the pair of the two groups. That the scan finds exactly the matches of
  the pattern is \<open>re_match_def_iff\<close> below.
\<close>

definition re_match_def :: "string \<Rightarrow> (string \<times> string) option" where
  "re_match_def s =
     (if \<not> startswith s ''def'' then None
      else let r1 = drop 3 s;
               r2 = dropWhile isspace r1
           in if takeWhile isspace r1 = [] then None
              else let func_name = takeWhile isword r2;
                       r3 = dropWhile isspace (dropWhile isword r2)
                   in if func_name = [] then None
                      else (case r3 of
                              [] \<Rightarrow> None
                            | c # r4 \<Rightarrow>
                                if c \<noteq> CHR ''('' then None
                                else let params = takeWhile (\<lambda>x. x \<noteq> CHR '')'') r4
                                     in (case dropWhile (\<lambda>x. x \<noteq> CHR '')'') r4 of
                                           [] \<Rightarrow> None
                                         | _ # r5 \<Rightarrow>
                                             (case dropWhile isspace r5 of
                                                [] \<Rightarrow> None
                                              | d # _ \<Rightarrow>
                                                  if d = CHR '':''
                                                  then Some (func_name, params)
                                                  else None))))"

text \<open>
  What the pattern means, read off the regular expression item by item: the line is
  \<^verbatim>\<open>def\<close>, one or more whitespace characters, a nonempty run of word characters
  (group 1), whitespace, an opening parenthesis, a run of characters other than the
  closing parenthesis (group 2), the closing parenthesis, whitespace, a colon, and any
  rest.
\<close>

definition matches_def_pattern :: "string \<Rightarrow> string \<Rightarrow> string \<Rightarrow> bool" where
  "matches_def_pattern s func_name params \<longleftrightarrow>
     (\<exists>ws1 ws2 ws3 rest.
        s = ''def'' @ ws1 @ func_name @ ws2 @ ''('' @ params @ '')'' @ ws3 @ '':'' @ rest
        \<and> ws1 \<noteq> [] \<and> (\<forall>c\<in>set ws1. isspace c)
        \<and> func_name \<noteq> [] \<and> (\<forall>c\<in>set func_name. isword c)
        \<and> (\<forall>c\<in>set ws2. isspace c)
        \<and> CHR '')'' \<notin> set params
        \<and> (\<forall>c\<in>set ws3. isspace c))"

subsection \<open>The method transpile\<close>

text \<open>
  The body of the \<^verbatim>\<open>for line in lines\<close> loop: the line is stripped, the first branch
  of the \<^verbatim>\<open>if\<close>/\<^verbatim>\<open>elif\<close> chain whose test holds runs, and \<open>js_lines\<close> is returned
  with what the branch appended.
\<close>

definition transpile_line :: "string list \<Rightarrow> string \<Rightarrow> error + string list" where
  "transpile_line js_lines raw =
     (let line = strip raw in
      if startswith line ''def '' then
        (let func_match = re_match_def line in
         if func_match \<noteq> None then
           (case groups func_match of
              Inl e \<Rightarrow> Inl e
            | Inr (func_name, params) \<Rightarrow>
                Inr (js_lines @ [''function '' @ func_name @ ''('' @ params @ '') {'']))
         else Inr js_lines)
      else if startswith line ''return '' then
        (let value = slice_from 7 line in
         Inr (js_lines @ [''    return '' @ value @ '';'']))
      else if startswith line ''print('' then
        (let args = slice_from_to_last 6 line in
         Inr (js_lines @ [''console.log('' @ args @ '');'']))
      else if CHR ''='' \<in> set line \<and> \<not> startswith line ''if'' \<and> \<not> startswith line ''while'' then
        (if contains line ''+='' then Inr (js_lines @ [line @ '';''])
         else (let parts = split1 CHR ''='' line in
               case getitem parts 0 of
                 Inl e \<Rightarrow> Inl e
               | Inr p0 \<Rightarrow>
                   (case getitem parts 1 of
                      Inl e \<Rightarrow> Inl e
                    | Inr p1 \<Rightarrow>
                        Inr (js_lines @ [''let '' @ strip p0 @ '' = '' @ strip p1 @ '';'']))))
      else if startswith line ''if '' then
        (let condition = slice_from_to_last 3 line in
         Inr (js_lines @ [''if ('' @ condition @ '') {'']))
      else if line = ''else:'' then Inr (js_lines @ [''} else {''])
      else if startswith line ''for '' then Inr (js_lines @ [''// '' @ line])
      else if startswith line ''while '' then
        (let condition = slice_from_to_last 6 line in
         Inr (js_lines @ [''while ('' @ condition @ '') {'']))
      else if line \<noteq> [] \<and> \<not> startswith line ''#'' then Inr (js_lines @ [line @ '';''])
      else if startswith line ''#'' then Inr (js_lines @ [''// '' @ slice_from 1 line])
      else Inr js_lines)"

text \<open>The loop over the lines; an exception in the body ends it.\<close>

fun transpile_loop :: "string list \<Rightarrow> string list \<Rightarrow> error + string list" where
  "transpile_loop js_lines [] = Inr js_lines"
| "transpile_loop js_lines (raw # rest) =
     (case transpile_line js_lines raw of
        Inl e \<Rightarrow> Inl e
      | Inr js_lines' \<Rightarrow> transpile_loop js_lines' rest)"

definition transpile :: "string \<Rightarrow> error + string" where
  "transpile code =
     (let lines = split CHR ''\<newline>'' (strip code);
          js_lines = [''// Generated JavaScript'', '''']
      in case transpile_loop js_lines lines of
           Inl e \<Rightarrow> Inl e
         | Inr js_lines' \<Rightarrow> Inr (join ''\<newline>'' (js_lines' @ [''}''])))"

subsection \<open>The method with the state around it made explicit\<close>


record world =
  self_attrs :: "string \<rightharpoonup> string"
  clock :: nat
  re_cache :: "string set"

definition re_match :: "world \<Rightarrow> string \<Rightarrow> string \<Rightarrow> (string \<times> string) option \<times> world" where
  "re_match w pattern s = (re_match_def s, w\<lparr>re_cache := insert pattern (re_cache w)\<rparr>)"




subsection \<open>Auxiliary notions for the proofs\<close>

text \<open>What the loop body appends for one line, started from an empty list.\<close>

definition line_out :: "string \<Rightarrow> string list" where
  "line_out raw = (case transpile_line [] raw of Inl e \<Rightarrow> [] | Inr js \<Rightarrow> js)"

text \<open>What the lines of a text append, one after the other.\<close>

definition body_of :: "string \<Rightarrow> string list" where
  "body_of code = concat (map line_out (split CHR ''\<newline>'' code))"

text \<open>
  Two lines differ only in leading or trailing whitespace: they have a common core,
  each with whitespace before and after it.
\<close>

definition differ_by_padding :: "string \<Rightarrow> string \<Rightarrow> bool" where
  "differ_by_padding l l' \<longleftrightarrow>
     (\<exists>a b a' b' core. l = a @ core @ b \<and> l' = a' @ core @ b' \<and>
        (\<forall>c \<in> set (a @ b @ a' @ b'). isspace c))"


text \<open>
  The tests under which the chain of branches reaches the branch for assignments and
  the last branch but one, for other statements, written out from the tests before them.
\<close>

definition assignment :: "string \<Rightarrow> bool" where
  "assignment line \<longleftrightarrow>
     \<not> startswith line ''def '' \<and> \<not> startswith line ''return '' \<and> \<not> startswith line ''print(''
     \<and> CHR ''='' \<in> set line \<and> \<not> startswith line ''if'' \<and> \<not> startswith line ''while''"

definition other_statement :: "string \<Rightarrow> bool" where
  "other_statement line \<longleftrightarrow>
     \<not> startswith line ''def '' \<and> \<not> startswith line ''return '' \<and> \<not> startswith line ''print(''
     \<and> \<not> (CHR ''='' \<in> set line \<and> \<not> startswith line ''if'' \<and> \<not> startswith line ''while'')
     \<and> \<not> startswith line ''if '' \<and> line \<noteq> ''else:'' \<and> \<not> startswith line ''for ''
     \<and> \<not> startswith line ''while '' \<and> line \<noteq> [] \<and> \<not> startswith line ''#''"

section \<open>Properties of the string operations\<close>

lemma split_nonempty: "split sep s \<noteq> []"
  by (induction s) (auto split: list.splits)

lemma split_snoc_sep: "split sep (s @ [sep]) = split sep s @ [[]]"
proof (induction s)
  case Nil
  show ?case by simp
next
  case (Cons a s)
  then show ?case using split_nonempty[of sep s]
    by (cases "split sep s") auto
qed

lemma split_snoc_other:
  "c \<noteq> sep \<Longrightarrow> split sep (s @ [c]) = butlast (split sep s) @ [last (split sep s) @ [c]]"
proof (induction s)
  case Nil
  then show ?case by simp
next
  case (Cons a s)
  then show ?case using split_nonempty[of sep s]
    by (cases "split sep s") (auto split: list.splits)
qed

lemma split_append_sep: "sep \<notin> set x \<Longrightarrow> split sep (x @ sep # rest) = x # split sep rest"
  by (induction x) auto

lemma split_no_sep_self: "sep \<notin> set x \<Longrightarrow> split sep x = [x]"
  by (induction x) auto

lemma split_join:
  "xs \<noteq> [] \<Longrightarrow> \<forall>x\<in>set xs. sep \<notin> set x \<Longrightarrow> split sep (join [sep] xs) = xs"
  by (induction "[sep]" xs rule: join.induct) (simp_all add: split_append_sep split_no_sep_self)

lemma split_pieces: "x \<in> set (split sep s) \<Longrightarrow> sep \<notin> set x"
proof (induction s arbitrary: x)
  case Nil
  then show ?case by simp
next
  case (Cons a s)
  then show ?case using split_nonempty[of sep s]
    by (cases "split sep s") (auto split: if_splits)
qed

lemma strip_Cons_space: "isspace c \<Longrightarrow> strip (c # s) = strip s"
  by (simp add: strip_def lstrip_def)

lemma strip_snoc_space: "isspace c \<Longrightarrow> strip (s @ [c]) = strip s"
  by (induction s) (auto simp: strip_def lstrip_def rstrip_def)

lemma strip_Nil: "strip [] = []"
  by (simp add: strip_def lstrip_def rstrip_def)

lemma strip_pad_left: "\<forall>c\<in>set a. isspace c \<Longrightarrow> strip (a @ s) = strip s"
  by (induction a) (simp_all add: strip_Cons_space)

lemma strip_pad_right: "\<forall>c\<in>set b. isspace c \<Longrightarrow> strip (s @ b) = strip s"
proof (induction b rule: rev_induct)
  case Nil
  show ?case by simp
next
  case (snoc x xs)
  then show ?case using strip_snoc_space[of x "s @ xs"] by simp
qed

lemma in_strip: "x \<in> set (strip s) \<Longrightarrow> x \<in> set s"
  by (auto simp: strip_def rstrip_def lstrip_def dest!: set_dropWhileD)

lemma notin_strip: "c \<notin> set s \<Longrightarrow> c \<notin> set (strip s)"
  using in_strip by blast

lemma in_tl: "x \<in> set (tl xs) \<Longrightarrow> x \<in> set xs"
  by (cases xs) auto

lemma notin_slice_from: "c \<notin> set s \<Longrightarrow> c \<notin> set (slice_from i s)"
  unfolding slice_from_def by (blast dest: in_set_dropD)

lemma notin_slice_from_to_last: "c \<notin> set s \<Longrightarrow> c \<notin> set (slice_from_to_last i s)"
  unfolding slice_from_to_last_def by (blast dest: in_set_dropD in_set_takeD)

lemma notin_split1:
  "c \<notin> set s \<Longrightarrow> getitem (split1 sep s) i = Inr p \<Longrightarrow> c \<notin> set p"
  unfolding split1_def getitem_def
  by (cases i; cases "i - 1")
     (auto split: if_splits dest: set_takeWhileD set_dropWhileD in_tl)

lemma differ_by_paddingI:
  "\<forall>c\<in>set (a @ b @ a' @ b'). isspace c \<Longrightarrow> differ_by_padding (a @ core @ b) (a' @ core @ b')"
  unfolding differ_by_padding_def by blast

lemma differ_by_padding_strip: "differ_by_padding l l' \<Longrightarrow> strip l = strip l'"
  unfolding differ_by_padding_def
  by (auto simp: strip_pad_left strip_pad_right)

text \<open>The groups of a match are pieces of the line.\<close>

lemma re_match_def_parts:
  assumes "re_match_def s = Some (a, b)"
  shows "set a \<subseteq> set s \<and> set b \<subseteq> set s"
proof -
  from assms obtain r4 where
    r3: "dropWhile isspace (dropWhile isword (dropWhile isspace (drop 3 s))) = CHR ''('' # r4"
    and a: "a = takeWhile isword (dropWhile isspace (drop 3 s))"
    and b: "b = takeWhile (\<lambda>x. x \<noteq> CHR '')'') r4"
    by (auto simp: re_match_def_def Let_def split: if_splits list.splits)
  have "set r4 \<subseteq> set (CHR ''('' # r4)" by auto
  also have "\<dots> \<subseteq> set s"
    unfolding r3[symmetric] by (blast dest: set_dropWhileD in_set_dropD)
  finally have "set b \<subseteq> set s"
    unfolding b by (blast dest: set_takeWhileD)
  moreover have "set a \<subseteq> set s"
    unfolding a by (blast dest: set_takeWhileD set_dropWhileD in_set_dropD)
  ultimately show ?thesis by simp
qed

subsection \<open>The scan of the function header is the regular expression\<close>

lemma isword_not_isspace: "isword c \<Longrightarrow> \<not> isspace c"
  by (auto simp: isword_def isspace_def Let_def)

lemma isspace_not_isword: "isspace c \<Longrightarrow> \<not> isword c"
  using isword_not_isspace by blast

lemma paren_classes: "\<not> isspace CHR ''(''" "\<not> isword CHR ''(''" "\<not> isspace CHR '':''"
  by (simp_all add: isword_def isspace_def)

lemma takeWhile_run:
  "\<forall>c\<in>set xs. P c \<Longrightarrow> (ys = [] \<or> \<not> P (hd ys)) \<Longrightarrow> takeWhile P (xs @ ys) = xs"
  by (cases ys) auto

lemma dropWhile_run:
  "\<forall>c\<in>set xs. P c \<Longrightarrow> (ys = [] \<or> \<not> P (hd ys)) \<Longrightarrow> dropWhile P (xs @ ys) = ys"
  by (cases ys) auto

lemma re_match_def_complete:
  assumes "matches_def_pattern s func_name params"
  shows "re_match_def s = Some (func_name, params)"
proof -
  from assms obtain ws1 ws2 ws3 rest where
    s: "s = ''def'' @ ws1 @ func_name @ ws2 @ ''('' @ params @ '')'' @ ws3 @ '':'' @ rest"
    and ws1: "ws1 \<noteq> []" "\<forall>c\<in>set ws1. isspace c"
    and nm: "func_name \<noteq> []" "\<forall>c\<in>set func_name. isword c"
    and ws2: "\<forall>c\<in>set ws2. isspace c"
    and ps: "CHR '')'' \<notin> set params"
    and ws3: "\<forall>c\<in>set ws3. isspace c"
    unfolding matches_def_pattern_def by blast
  let ?t3 = "ws3 @ CHR '':'' # rest"
  let ?t2 = "ws2 @ CHR ''('' # params @ CHR '')'' # ?t3"
  let ?t1 = "func_name @ ?t2"
  have sw: "startswith s ''def''" by (simp add: s startswith_def)
  have d3: "drop 3 s = ws1 @ ?t1" by (simp add: s)
  have h1: "\<not> isspace (hd ?t1)" using nm by (cases func_name) (auto dest: isword_not_isspace)
  have T1: "takeWhile isspace (drop 3 s) = ws1"
    unfolding d3 by (rule takeWhile_run) (use ws1 h1 in auto)
  have D1: "dropWhile isspace (drop 3 s) = ?t1"
    unfolding d3 by (rule dropWhile_run) (use ws1 h1 in auto)
  have h2: "\<not> isword (hd ?t2)" using ws2 paren_classes
    by (cases ws2) (auto dest: isspace_not_isword)
  have T2: "takeWhile isword (dropWhile isspace (drop 3 s)) = func_name"
    unfolding D1 by (rule takeWhile_run) (use nm h2 in auto)
  have D2: "dropWhile isword (dropWhile isspace (drop 3 s)) = ?t2"
    unfolding D1 by (rule dropWhile_run) (use nm h2 in auto)
  have D3: "dropWhile isspace (dropWhile isword (dropWhile isspace (drop 3 s)))
              = CHR ''('' # params @ CHR '')'' # ?t3"
    unfolding D2 by (rule dropWhile_run) (use ws2 paren_classes in auto)
  have T4: "takeWhile (\<lambda>x. x \<noteq> CHR '')'') (params @ CHR '')'' # ?t3) = params"
    by (rule takeWhile_run) (use ps in auto)
  have D4: "dropWhile (\<lambda>x. x \<noteq> CHR '')'') (params @ CHR '')'' # ?t3) = CHR '')'' # ?t3"
    by (rule dropWhile_run) (use ps in auto)
  have D5: "dropWhile isspace ?t3 = CHR '':'' # rest"
    by (rule dropWhile_run) (use ws3 paren_classes in auto)
  show ?thesis
    unfolding re_match_def_def Let_def T1 T2 D3
    using sw ws1(1) nm(1) by (simp add: T4 D4 D5)
qed

lemma re_match_def_sound:
  assumes "re_match_def s = Some (func_name, params)"
  shows "matches_def_pattern s func_name params"
proof -
  let ?r1 = "drop 3 s"
  let ?ws1 = "takeWhile isspace ?r1"
  let ?r2 = "dropWhile isspace ?r1"
  let ?r2' = "dropWhile isword ?r2"
  let ?ws2 = "takeWhile isspace ?r2'"
  from assms obtain r4 d r5 rest where
    sw: "startswith s ''def''" and ws1: "?ws1 \<noteq> []"
    and nm: "func_name = takeWhile isword ?r2" "func_name \<noteq> []"
    and r3: "dropWhile isspace ?r2' = CHR ''('' # r4"
    and ps: "params = takeWhile (\<lambda>x. x \<noteq> CHR '')'') r4"
    and r5': "dropWhile (\<lambda>x. x \<noteq> CHR '')'') r4 = d # r5"
    and r6: "dropWhile isspace r5 = CHR '':'' # rest"
    unfolding re_match_def_def Let_def
    by (auto split: if_splits list.splits)
  from r5' have "d = CHR '')''"
    by (simp add: dropWhile_eq_Cons_conv)
  with r5' have r5: "dropWhile (\<lambda>x. x \<noteq> CHR '')'') r4 = CHR '')'' # r5" by simp
  have "s = ''def'' @ ?r1" using sw unfolding startswith_def
    by (metis append_take_drop_id length_Cons list.size(3) numeral_3_eq_3)
  also have "?r1 = ?ws1 @ ?r2" by simp
  also have "?r2 = func_name @ ?r2'" unfolding nm(1) by simp
  also have "?r2' = ?ws2 @ dropWhile isspace ?r2'" by simp
  also have "dropWhile isspace ?r2' = ''('' @ r4" using r3 by simp
  also have "r4 = params @ dropWhile (\<lambda>x. x \<noteq> CHR '')'') r4" unfolding ps by simp
  also have "dropWhile (\<lambda>x. x \<noteq> CHR '')'') r4 = '')'' @ r5" using r5 by simp
  also have "r5 = takeWhile isspace r5 @ dropWhile isspace r5" by simp
  also have "dropWhile isspace r5 = '':'' @ rest" using r6 by simp
  finally have s: "s = ''def'' @ ?ws1 @ func_name @ ?ws2 @ ''('' @ params @ '')''
                        @ takeWhile isspace r5 @ '':'' @ rest" .
  have "\<forall>c\<in>set ?ws1. isspace c" "\<forall>c\<in>set ?ws2. isspace c"
       "\<forall>c\<in>set (takeWhile isspace r5). isspace c"
       "\<forall>c\<in>set func_name. isword c" "CHR '')'' \<notin> set params"
    unfolding nm(1) ps by (auto dest: set_takeWhileD)
  with s ws1 nm(2) show ?thesis
    unfolding matches_def_pattern_def by blast
qed

text \<open>
  The scan returns a pair of groups exactly when the line matches the pattern with these
  groups; so a line has at most one pair of groups, whatever the order in which a
  backtracking matcher tries the repetitions.
\<close>

lemma re_match_def_iff:
  "re_match_def s = Some (func_name, params) \<longleftrightarrow> matches_def_pattern s func_name params"
  using re_match_def_sound re_match_def_complete by blast

section \<open>The loop and the whole method\<close>

text \<open>
  No branch of the loop body raises: the match is tested before its groups are read, and
  the line is split at \<open>=\<close> only when it contains one, so both parts exist. The body
  appends to \<open>js_lines\<close> and what it appends depends on the stripped line only.
\<close>

lemma transpile_line_append: "transpile_line js raw = Inr (js @ line_out raw)"
  unfolding line_out_def transpile_line_def Let_def
  by (auto simp: split1_def getitem_def groups_def split: sum.splits prod.splits)

lemma transpile_loop_append: "transpile_loop js ls = Inr (js @ concat (map line_out ls))"
  by (induction ls arbitrary: js) (simp_all add: transpile_line_append)

lemma line_out_strip: "strip a = strip b \<Longrightarrow> line_out a = line_out b"
  by (simp add: line_out_def transpile_line_def)

lemma line_out_Nil: "line_out [] = []"
  by (simp add: line_out_def transpile_line_def strip_Nil startswith_def)

lemma line_out_comment:
  assumes "strip raw = CHR ''#'' # t" and "CHR ''='' \<notin> set t"
  shows "line_out raw = [''// '' @ t]"
  using assms
  by (simp add: line_out_def transpile_line_def startswith_def slice_from_def)

lemma line_out_other_statement:
  "other_statement (strip raw) \<Longrightarrow> line_out raw = [strip raw @ '';'']"
  by (auto simp: other_statement_def line_out_def transpile_line_def Let_def)

lemma line_out_assignment:
  assumes "assignment (strip raw)" and "\<not> contains (strip raw) ''+=''"
  shows "line_out raw =
           [''let '' @ strip (split1 CHR ''='' (strip raw) ! 0) @ '' = ''
              @ strip (split1 CHR ''='' (strip raw) ! 1) @ '';'']"
  using assms
  by (simp add: assignment_def line_out_def transpile_line_def Let_def split1_def getitem_def)

text \<open>A character that is neither in the line nor in the fixed texts is not in the output.\<close>

lemma line_out_no_char:
  assumes raw: "c \<notin> set raw"
    and c: "c \<notin> set ''function () {return;console.log(let=if}else//while''"
    and x: "x \<in> set (line_out raw)"
  shows "c \<notin> set x"
proof -
  have line: "c \<notin> set (strip raw)" using raw by (rule notin_strip)
  note comps = line notin_slice_from[OF line] notin_slice_from_to_last[OF line]
  have parts: "\<And>i p. getitem (split1 CHR ''='' (strip raw)) i = Inr p \<Longrightarrow> c \<notin> set (strip p)"
    using notin_split1[OF line] notin_strip by blast
  have grp: "\<And>a b. re_match_def (strip raw) = Some (a, b) \<Longrightarrow> c \<notin> set a \<and> c \<notin> set b"
    using re_match_def_parts line by blast
  from x c show ?thesis
    unfolding line_out_def transpile_line_def Let_def
    by (auto simp: comps groups_def split: if_splits sum.splits dest: parts grp)
qed

text \<open>
  Whitespace at either end of the text changes nothing: a newline there splits off an
  empty line, which appends nothing, and other whitespace is stripped from its line.
\<close>

lemma body_of_Cons_space: "isspace c \<Longrightarrow> body_of (c # s) = body_of s"
proof (cases "c = CHR ''\<newline>''")
  case True
  then show ?thesis by (simp add: body_of_def line_out_Nil)
next
  case False
  assume sp: "isspace c"
  obtain p ps where ps: "split CHR ''\<newline>'' s = p # ps"
    using split_nonempty[of "CHR ''\<newline>''" s] by (cases "split CHR ''\<newline>'' s") auto
  have "line_out (c # p) = line_out p"
    by (rule line_out_strip) (simp add: strip_Cons_space sp)
  with False ps show ?thesis by (simp add: body_of_def)
qed

lemma body_of_snoc_space: "isspace c \<Longrightarrow> body_of (s @ [c]) = body_of s"
proof (cases "c = CHR ''\<newline>''")
  case True
  then show ?thesis by (simp add: body_of_def line_out_Nil split_snoc_sep)
next
  case False
  assume sp: "isspace c"
  let ?X = "split CHR ''\<newline>'' s"
  have ne: "?X \<noteq> []" by (rule split_nonempty)
  have lo: "line_out (last ?X @ [c]) = line_out (last ?X)"
    by (rule line_out_strip) (simp add: strip_snoc_space sp)
  have "body_of (s @ [c]) = concat (map line_out (butlast ?X)) @ line_out (last ?X @ [c])"
    using False by (simp add: body_of_def split_snoc_other)
  also have "\<dots> = concat (map line_out (butlast ?X @ [last ?X]))"
    by (simp add: lo)
  also have "butlast ?X @ [last ?X] = ?X"
    using ne by simp
  finally show ?thesis by (simp add: body_of_def)
qed

lemma body_of_lstrip: "body_of (lstrip s) = body_of s"
  by (induction s) (simp_all add: lstrip_def body_of_Cons_space)

lemma body_of_rstrip_rev: "body_of (rev (dropWhile isspace r)) = body_of (rev r)"
  by (induction r) (simp_all add: body_of_snoc_space)

lemma body_of_strip: "body_of (strip s) = body_of s"
  using body_of_rstrip_rev[of "rev (lstrip s)"]
  by (simp add: strip_def rstrip_def body_of_lstrip)

lemma in_body_of:
  "raw \<in> set (split CHR ''\<newline>'' code) \<Longrightarrow> x \<in> set (line_out raw) \<Longrightarrow> x \<in> set (body_of code)"
  unfolding body_of_def by auto

lemma padding_body_of:
  assumes "list_all2 differ_by_padding (split CHR ''\<newline>'' s) (split CHR ''\<newline>'' s')"
  shows "body_of s = body_of s'"
proof -
  from assms
  have "map line_out (split CHR ''\<newline>'' s) = map line_out (split CHR ''\<newline>'' s')"
    by (induction rule: list_all2_induct) (auto dest: differ_by_padding_strip line_out_strip)
  then show ?thesis by (simp add: body_of_def)
qed

text \<open>The result of the method, for every input.\<close>

lemma transpile_eq:
  "transpile code =
     Inr (join ''\<newline>'' ([''// Generated JavaScript'', ''''] @ body_of code @ [''}'']))"
  using body_of_strip[of code]
  by (simp add: transpile_def transpile_loop_append body_of_def)

lemma transpile_lines:
  "\<exists>out. transpile code = Inr out \<and>
     split CHR ''\<newline>'' out = [''// Generated JavaScript'', ''''] @ body_of code @ [''}'']"
proof -
  let ?xs = "[''// Generated JavaScript'', ''''] @ body_of code @ [''}'']"
  have "\<forall>x\<in>set (body_of code). CHR ''\<newline>'' \<notin> set x"
    unfolding body_of_def
    by (auto dest!: split_pieces[of _ "CHR ''\<newline>''" code] line_out_no_char[rotated 2])
  then have "\<forall>x\<in>set ?xs. CHR ''\<newline>'' \<notin> set x" by auto
  then have "split CHR ''\<newline>'' (join ''\<newline>'' ?xs) = ?xs"
    by (intro split_join) simp_all
  then show ?thesis by (simp add: transpile_eq)
qed

subsection \<open>The state around a call\<close>






section \<open>The claims\<close>

subsection \<open>C1: a function definition\<close>

text \<open>
  C1: for the input \<^verbatim>\<open>def add(a, b):\<close> followed by the line \<^verbatim>\<open>    return a + b\<close>,
  transpile succeeds; after the header its output is the function declaration named
  \<open>add\<close> with the parameter list \<open>a, b\<close>, and the body between the braces is the one
  statement \<^verbatim>\<open>return a + b;\<close>.
\<close>

theorem transpile_add_function:
  "transpile ''def add(a, b):\<newline>    return a + b'' =
     Inr ''// Generated JavaScript\<newline>\<newline>function add(a, b) {\<newline>    return a + b;\<newline>}''"
  by code_simp

subsection \<open>C2: constructs outside the grammar\<close>

text \<open>
  C2 says that an input with an import statement, a class definition, a try/except block
  or a dict literal makes transpile fail. It does not: the input \<^verbatim>\<open>import os\<close> is
  translated, the line copied with a semicolon.
\<close>

theorem import_translated:
  "transpile ''import os'' = Inr ''// Generated JavaScript\<newline>\<newline>import os;\<newline>}''"
  by code_simp

text \<open>
  C2, amended: no input is rejected, so an input with an import statement, a class
  definition, a try/except block or a dict literal is translated: transpile returns
  output for every input. Each line is judged by its own text. A line that meets none of
  the tests of the branches (such as \<^verbatim>\<open>import os\<close>, \<^verbatim>\<open>from os import path\<close>,
  \<^verbatim>\<open>class A:\<close>, \<^verbatim>\<open>try:\<close>) is a line of the output with a semicolon added; a line
  that reaches the branch for assignments, has no \<^verbatim>\<open>+=\<close> and is no comment (such as
  \<^verbatim>\<open>d = {}\<close>) is a line of the output as \<^verbatim>\<open>let\<close>, the stripped text before the first
  \<open>=\<close>, \<open>=\<close>, the stripped text after it, and a semicolon.
\<close>

theorem unsupported_never_rejected:
  "\<exists>out. transpile code = Inr out \<and>
     (\<forall>raw \<in> set (split CHR ''\<newline>'' code).
        (other_statement (strip raw) \<longrightarrow>
           (strip raw @ '';'') \<in> set (split CHR ''\<newline>'' out))
        \<and> (assignment (strip raw) \<and> \<not> contains (strip raw) ''+=''
             \<and> \<not> startswith (strip raw) ''#'' \<longrightarrow>
             (''let '' @ strip (split1 CHR ''='' (strip raw) ! 0) @ '' = ''
                @ strip (split1 CHR ''='' (strip raw) ! 1) @ '';'')
             \<in> set (split CHR ''\<newline>'' out)))"
proof -
  obtain out where out: "transpile code = Inr out"
    and ls: "split CHR ''\<newline>'' out = [''// Generated JavaScript'', ''''] @ body_of code @ [''}'']"
    using transpile_lines[of code] by blast
  have "\<And>raw x. raw \<in> set (split CHR ''\<newline>'' code) \<Longrightarrow> x \<in> set (line_out raw)
          \<Longrightarrow> x \<in> set (split CHR ''\<newline>'' out)"
    using in_body_of ls by simp
  then show ?thesis
    using out by (auto simp: line_out_other_statement line_out_assignment)
qed

text \<open>
  The amended C2 at the input \<^verbatim>\<open>from os import path\<close> followed by \<^verbatim>\<open>d = {}\<close>: both
  lines are in the output.
\<close>

theorem unsupported_never_rejected_witness:
  "\<exists>out. transpile ''from os import path\<newline>d = {}'' = Inr out
     \<and> ''from os import path;'' \<in> set (split CHR ''\<newline>'' out)
     \<and> ''let d = {};'' \<in> set (split CHR ''\<newline>'' out)"
proof -
  let ?code = "''from os import path\<newline>d = {}''"
  have l1: "''from os import path'' \<in> set (split CHR ''\<newline>'' ?code)" by simp
  have l2: "''d = {}'' \<in> set (split CHR ''\<newline>'' ?code)" by simp
  have s1: "strip ''from os import path'' = ''from os import path''"
    by (simp add: strip_def lstrip_def rstrip_def isspace_def)
  have s2: "strip ''d = {}'' = ''d = {}''"
    by (simp add: strip_def lstrip_def rstrip_def isspace_def)
  have o: "other_statement ''from os import path''"
    by (simp add: other_statement_def startswith_def)
  have a: "assignment ''d = {}'' \<and> \<not> contains ''d = {}'' ''+='' \<and> \<not> startswith ''d = {}'' ''#''"
    by (simp add: assignment_def startswith_def)
  have v: "''let '' @ strip (split1 CHR ''='' ''d = {}'' ! 0) @ '' = ''
             @ strip (split1 CHR ''='' ''d = {}'' ! 1) @ '';'' = ''let d = {};''"
    by (simp add: split1_def strip_def lstrip_def rstrip_def isspace_def)
  from unsupported_never_rejected[of ?code] obtain out where
    out: "transpile ?code = Inr out"
    and all: "\<forall>raw \<in> set (split CHR ''\<newline>'' ?code).
        (other_statement (strip raw) \<longrightarrow>
           (strip raw @ '';'') \<in> set (split CHR ''\<newline>'' out))
        \<and> (assignment (strip raw) \<and> \<not> contains (strip raw) ''+=''
             \<and> \<not> startswith (strip raw) ''#'' \<longrightarrow>
             (''let '' @ strip (split1 CHR ''='' (strip raw) ! 0) @ '' = ''
                @ strip (split1 CHR ''='' (strip raw) ! 1) @ '';'')
             \<in> set (split CHR ''\<newline>'' out))"
    by blast
  from all l1 o s1 have "''from os import path;'' \<in> set (split CHR ''\<newline>'' out)"
    by (metis append_Cons append_Nil)
  moreover from all l2 a s2 v have "''let d = {};'' \<in> set (split CHR ''\<newline>'' out)"
    by metis
  ultimately show ?thesis using out by blast
qed

subsection \<open>C3: an unterminated string literal\<close>



subsection \<open>C4: a for loop over a range\<close>

text \<open>
  C4 says that the input \<^verbatim>\<open>for i in range(3):\<close> with the body \<^verbatim>\<open>print(i)\<close> is
  translated to a counting loop from 0 while \<open>i < 3\<close> in steps of 1. The output has no
  loop: the header of the loop is a comment and the call is made once.
\<close>

theorem for_range_commented_out:
  "transpile ''for i in range(3):\<newline>    print(i)'' =
     Inr ''// Generated JavaScript\<newline>\<newline>// for i in range(3):\<newline>console.log(i);\<newline>}''"
  by code_simp

text \<open>
  C4, amended: for that input transpile succeeds and its output is these five lines and
  no more: the header, an empty line, the loop header as the comment line
  \<^verbatim>\<open>// for i in range(3):\<close>, the line \<^verbatim>\<open>console.log(i);\<close> and a closing brace. No
  line of it is a loop.
\<close>

theorem for_range_as_comment:
  "\<exists>out. transpile ''for i in range(3):\<newline>    print(i)'' = Inr out
     \<and> split CHR ''\<newline>'' out =
         [''// Generated JavaScript'', '''', ''// for i in range(3):'', ''console.log(i);'', ''}'']"
  by (rule exI[of _ "''// Generated JavaScript\<newline>\<newline>// for i in range(3):\<newline>console.log(i);\<newline>}''"])
     code_simp

subsection \<open>C5: a print statement\<close>

text \<open>
  C5: for the input \<^verbatim>\<open>print("hi")\<close> the output calls \<^verbatim>\<open>console.log\<close> with the
  string \<^verbatim>\<open>"hi"\<close>, and the whole output is valid text of the target language. The call
  is there; the last line of the output is a closing brace, and the output has no opening
  brace.
\<close>

theorem print_hi_output:
  \<open>transpile ''print("hi")'' =
     Inr ''// Generated JavaScript\<newline>\<newline>console.log("hi");\<newline>}''\<close>
  by code_simp

subsection \<open>C6: determinism\<close>


subsection \<open>C7: comment lines\<close>

text \<open>
  C7 says that a line that is only a comment contributes no text to the output. The
  input \<^verbatim>\<open># note\<close> gives the output line \<^verbatim>\<open>//  note\<close>.
\<close>

theorem comment_translated:
  "transpile ''# note'' = Inr ''// Generated JavaScript\<newline>\<newline>//  note\<newline>}''"
  by code_simp

text \<open>
  C7, amended: a line of the input that, stripped, is \<open>#\<close> followed by a text without
  \<open>=\<close> is not discarded: transpile returns output, and \<^verbatim>\<open>// \<close> followed by that text
  is a line of it.
\<close>

theorem comment_line_kept:
  assumes "raw \<in> set (split CHR ''\<newline>'' code)"
    and "strip raw = CHR ''#'' # t" and "CHR ''='' \<notin> set t"
  shows "\<exists>out. transpile code = Inr out \<and> (''// '' @ t) \<in> set (split CHR ''\<newline>'' out)"
proof -
  have "(''// '' @ t) \<in> set (body_of code)"
    using assms by (auto intro: in_body_of simp: line_out_comment)
  then show ?thesis using transpile_lines[of code] by auto
qed

text \<open>The amended C7 at an input with an indented comment in its second line.\<close>

theorem comment_line_kept_witness:
  "''  # note'' \<in> set (split CHR ''\<newline>'' ''x = 1\<newline>  # note'')
   \<and> strip ''  # note'' = CHR ''#'' # '' note'' \<and> CHR ''='' \<notin> set '' note''
   \<and> (\<exists>out. transpile ''x = 1\<newline>  # note'' = Inr out
         \<and> (''// '' @ '' note'') \<in> set (split CHR ''\<newline>'' out))"
proof -
  have h1: "''  # note'' \<in> set (split CHR ''\<newline>'' ''x = 1\<newline>  # note'')" by simp
  have h2: "strip ''  # note'' = CHR ''#'' # '' note''"
    by (simp add: strip_def lstrip_def rstrip_def isspace_def)
  have h3: "CHR ''='' \<notin> set '' note''" by simp
  show ?thesis using h1 h2 h3 comment_line_kept[OF h1 h2 h3] by blast
qed

subsection \<open>C8: totality\<close>

text \<open>
  C8: for every input string transpile returns a string; no input makes it raise.
\<close>

theorem transpile_total: "\<exists>out. transpile code = Inr out"
  by (simp add: transpile_eq)

subsection \<open>C9: the first and the last lines\<close>

text \<open>
  C9: for every input the output is made of the line \<^verbatim>\<open>// Generated JavaScript\<close>, an
  empty line, the translated lines, and a last line that is a single closing brace.
\<close>

theorem transpile_frame:
  "\<exists>out body. transpile code = Inr out \<and>
     split CHR ''\<newline>'' out = [''// Generated JavaScript'', ''''] @ body @ [''}'']"
  using transpile_lines[of code] by blast

subsection \<open>C10: whitespace at the ends of the lines\<close>

text \<open>
  C10: when two inputs have the same number of lines and each line of the one differs
  from the line of the other at most in leading and trailing whitespace, transpile gives
  the same result for both.
\<close>

theorem transpile_padding_invariant:
  assumes "list_all2 differ_by_padding (split CHR ''\<newline>'' s) (split CHR ''\<newline>'' s')"
  shows "transpile s = transpile s'"
  using padding_body_of[OF assms] by (simp add: transpile_eq)

text \<open>C10 at a function definition with and without indentation.\<close>

theorem transpile_padding_invariant_witness:
  "list_all2 differ_by_padding
     (split CHR ''\<newline>'' ''  def f(): \<newline>    return 1'')
     (split CHR ''\<newline>'' ''def f():\<newline>return 1  '')
   \<and> transpile ''  def f(): \<newline>    return 1'' = transpile ''def f():\<newline>return 1  ''"
proof -
  have a: "differ_by_padding ''  def f(): '' ''def f():''"
    using differ_by_paddingI[of "''  ''" "'' ''" "[]" "[]" "''def f():''"]
    by (simp add: isspace_def)
  have b: "differ_by_padding ''    return 1'' ''return 1  ''"
    using differ_by_paddingI[of "''    ''" "[]" "[]" "''  ''" "''return 1''"]
    by (simp add: isspace_def)
  have h: "list_all2 differ_by_padding
     (split CHR ''\<newline>'' ''  def f(): \<newline>    return 1'')
     (split CHR ''\<newline>'' ''def f():\<newline>return 1  '')"
    using a b by simp
  show ?thesis using h transpile_padding_invariant[OF h] by simp
qed

end
